theory Spec2Isabelle
  imports Main "HOL-Library.Word"
begin

section \<open>JavaScript values as the decorators see them\<close>

text \<open>
  The decorators of \<^verbatim>\<open>underbar.js\<close> (\<^verbatim>\<open>_.once\<close>, \<^verbatim>\<open>_.memoize\<close>, \<^verbatim>\<open>_.delay\<close>,
  \<^verbatim>\<open>_.throttle\<close>) look at a value in two ways only: its truthiness (\<^verbatim>\<open>!results[k]\<close>,
  \<^verbatim>\<open>lastTrigger && ...\<close>) and its conversion to a property key (\<^verbatim>\<open>results[arguments[0]]\<close>).
  The values of the model are those for which both are determined by the value alone:
  \<^item> \<open>VNum w\<close> is the number \<open>sint w\<close>, an integer from \<open>- (2 ^ 53)\<close> to \<open>2 ^ 53 - 1\<close>.
    Every integer in this range is a JavaScript number, and its conversion to a string is
    its decimal rendering. Larger numbers (whose conversion rounds and, from \<^verbatim>\<open>1e21\<close> on,
    takes exponent form), fractions and infinities are not values of the model. \<^verbatim>\<open>-0\<close>
    converts and tests as \<^verbatim>\<open>0\<close> does.
  \<^item> \<open>VNaN\<close> is kept apart because it is falsy.
  \<^item> \<open>VObj r str\<close> is a reference \<open>r\<close> to an object whose conversion to a string gives
    \<open>str\<close>, with no effect and no exception (\<^verbatim>\<open>[object Object]\<close> for a plain object).
  \<^item> \<open>VFun src\<close> is a function with the source text \<open>src\<close> and no conversion methods of
    its own: its string conversion is its source text.
\<close>

datatype jsval =
    VUndefined
  | VNull
  | VBool bool
  | VNum "54 word"
  | VNaN
  | VStr string
  | VObj nat string
  | VFun string

text \<open>ToBoolean.\<close>

fun truthy :: "jsval \<Rightarrow> bool" where
  "truthy VUndefined = False"
| "truthy VNull = False"
| "truthy (VBool b) = b"
| "truthy (VNum n) = (n \<noteq> 0)"
| "truthy VNaN = False"
| "truthy (VStr s) = (s \<noteq> [])"
| "truthy (VObj r str) = True"
| "truthy (VFun f) = True"

text \<open>Decimal rendering of a natural number, most significant digit first.\<close>

fun digits :: "nat \<Rightarrow> string" where
  "digits n =
     (if n < 10 then [''0123456789'' ! n]
      else digits (n div 10) @ [''0123456789'' ! (n mod 10)])"

declare digits.simps [simp del]

definition show_int :: "int \<Rightarrow> string" where
  "show_int i = (if i < 0 then CHR ''-'' # digits (nat (- i)) else digits (nat i))"

text \<open>ToPropertyKey, which for these values is ToString.\<close>

fun ToPropertyKey :: "jsval \<Rightarrow> string" where
  "ToPropertyKey VUndefined = ''undefined''"
| "ToPropertyKey VNull = ''null''"
| "ToPropertyKey (VBool b) = (if b then ''true'' else ''false'')"
| "ToPropertyKey (VNum n) = show_int (sint n)"
| "ToPropertyKey VNaN = ''NaN''"
| "ToPropertyKey (VStr s) = s"
| "ToPropertyKey (VObj r str) = str"
| "ToPropertyKey (VFun src) = src"

text \<open>\<^verbatim>\<open>arguments[0]\<close>: reading past the end of \<^verbatim>\<open>arguments\<close> gives \<^verbatim>\<open>undefined\<close>.\<close>

definition arg0 :: "jsval list \<Rightarrow> jsval" where
  "arg0 args = (case args of [] \<Rightarrow> VUndefined | a # _ \<Rightarrow> a)"

section \<open>The wrapped function\<close>

text \<open>
  The function handed to a decorator is arbitrary JavaScript: it receives \<^verbatim>\<open>this\<close> and
  the argument list, may read and change state of its own (the world \<open>'w\<close>), and either
  returns a value (\<open>Inr\<close>) or throws one (\<open>Inl\<close>). For \<^verbatim>\<open>_.memoize\<close>, \<^verbatim>\<open>_.delay\<close> and
  \<^verbatim>\<open>_.throttle\<close> the wrapped function is a \<open>jsfun\<close>: a function that runs to its end
  without calling the wrapper that wraps it. For \<^verbatim>\<open>_.once\<close> the wrapped function may call
  the wrapper while it runs, and is a \<open>body\<close> (below). Every invocation is appended to the
  log \<open>calls\<close>.
\<close>

type_synonym 'w jsfun = "jsval \<Rightarrow> jsval list \<Rightarrow> 'w \<Rightarrow> (jsval + jsval) \<times> 'w"

record 'w env =
  world :: 'w
  calls :: "(jsval \<times> jsval list) list"

text \<open>\<^verbatim>\<open>func.apply(this, arguments)\<close>.\<close>

definition invoke :: "'w jsfun \<Rightarrow> jsval \<Rightarrow> jsval list \<Rightarrow> 'w env \<Rightarrow> (jsval + jsval) \<times> 'w env" where
  "invoke func this args e =
     (case func this args (world e) of
        (r, w') \<Rightarrow> (r, \<lparr>world = w', calls = calls e @ [(this, args)]\<rparr>))"

section \<open>\<^verbatim>\<open>_.once\<close>\<close>

text \<open>
  \<^verbatim>\<open>
  _.once = func => {
    var alreadyCalled = false;
    var result;
    return function() {
      if (!alreadyCalled) {
        result = func.apply(this, arguments);
        alreadyCalled = true;
      }
      return result;
    };
  };
  \<close>
  The closure variables are the record \<open>once_state\<close>. \<^verbatim>\<open>alreadyCalled\<close> is set only after
  \<^verbatim>\<open>func.apply\<close> has returned, so what \<^verbatim>\<open>func\<close> does while it runs matters: it may call the
  wrapper, which then finds \<^verbatim>\<open>alreadyCalled\<close> still false.
\<close>

record once_state =
  alreadyCalled :: bool
  result :: jsval

definition once_init :: once_state where
  "once_init = \<lparr>alreadyCalled = False, result = VUndefined\<rparr>"

text \<open>
  One invocation of the wrapped function, as the wrapper sees it: it ends, returning or
  throwing and leaving its world, or it calls the wrapper with a receiver and arguments
  (its world as it is at that moment) and goes on from the outcome of that call and the
  world the call has left. The wrapped function has no other access to the closure
  variables of the wrapper.
\<close>

datatype 'w act =
    Done "jsval + jsval" 'w
  | CallWrapper jsval "jsval list" 'w "(jsval + jsval) \<Rightarrow> 'w \<Rightarrow> 'w act"

type_synonym 'w body = "jsval \<Rightarrow> jsval list \<Rightarrow> 'w \<Rightarrow> 'w act"


text \<open>
  The call stack of the engine is finite: a call of the wrapper that finds it exhausted
  throws a \<^verbatim>\<open>RangeError\<close> and does nothing else. The depth left, counted in calls of the
  wrapper that can still be nested, is a parameter of every call.
\<close>

definition range_error :: jsval where
  "range_error = VObj 2 ''RangeError: Maximum call stack size exceeded''"

type_synonym 'w once_result = "(jsval + jsval) \<times> once_state \<times> 'w env"

text \<open>
  Running one invocation of \<^verbatim>\<open>func\<close>, where \<open>g\<close> is the wrapper as \<^verbatim>\<open>func\<close> can call it.
  The state is the closure variables and the log; the world travels in the \<open>act\<close>.
\<close>

primrec once_exec ::
  "(jsval \<Rightarrow> jsval list \<Rightarrow> once_state \<times> 'w env \<Rightarrow> 'w once_result) \<Rightarrow> 'w act
     \<Rightarrow> once_state \<times> (jsval \<times> jsval list) list \<Rightarrow> 'w once_result" where
  "once_exec g (Done r w) st = (r, fst st, \<lparr>world = w, calls = snd st\<rparr>)"
| "once_exec g (CallWrapper this args w k) st =
     (case g this args (fst st, \<lparr>world = w, calls = snd st\<rparr>) of
        (r, s', e') \<Rightarrow> once_exec g (k r (world e')) (s', calls e'))"

text \<open>
  A call of the returned function with \<open>d\<close> frames of stack left. When \<^verbatim>\<open>func\<close> throws,
  neither assignment of this call is executed; the closure variables are then as the calls
  made from inside \<^verbatim>\<open>func\<close> have left them.
\<close>

primrec once_call ::
  "nat \<Rightarrow> 'w body \<Rightarrow> jsval \<Rightarrow> jsval list \<Rightarrow> once_state \<times> 'w env \<Rightarrow> 'w once_result" where
  "once_call 0 func this args st = (Inl range_error, st)"
| "once_call (Suc d) func this args st =
     (case st of (s, e) \<Rightarrow>
        if \<not> alreadyCalled s then
          (case once_exec (once_call d func) (func this args (world e))
                  (s, calls e @ [(this, args)]) of
             (Inl x, s', e') \<Rightarrow> (Inl x, s', e')
           | (Inr v, s', e') \<Rightarrow>
               (let s'' = s'\<lparr>result := v\<rparr>; s''' = s''\<lparr>alreadyCalled := True\<rparr>
                in (Inr (result s'''), s''', e')))
        else (Inr (result s), s, e))"

text \<open>A sequence of calls of one wrapper: the outcome of each call, and the state left.\<close>

fun once_run ::
  "nat \<Rightarrow> 'w body \<Rightarrow> (jsval \<times> jsval list) list \<Rightarrow> once_state \<times> 'w env
     \<Rightarrow> (jsval + jsval) list \<times> once_state \<times> 'w env" where
  "once_run d func [] st = ([], st)"
| "once_run d func (c # cs) st =
     (case once_call d func (fst c) (snd c) st of
        (r, st') \<Rightarrow> (case once_run d func cs st' of (rs, st'') \<Rightarrow> (r # rs, st'')))"

section \<open>\<^verbatim>\<open>_.memoize\<close>\<close>

text \<open>
  \<^verbatim>\<open>
  _.memoize = func => {
    var results = {}
    return function() {
      if (!results[arguments[0]]) {
        results[arguments[0]] = func.apply(this, arguments);
      }
      return results[arguments[0]];
    }
  };
  \<close>
  \<^verbatim>\<open>results\<close> is a plain object: its own properties are the map \<open>memo_table\<close>, and a
  read \<^verbatim>\<open>results[k]\<close> that finds no own property continues in \<^verbatim>\<open>Object.prototype\<close>,
  whose members are listed in \<open>object_prototype\<close> (the accessor \<^verbatim>\<open>__proto__\<close> reads as
  the prototype object itself).
\<close>

type_synonym memo_table = "string \<rightharpoonup> jsval"

definition object_prototype :: "(string \<times> jsval) list" where
  "object_prototype =
     [(''constructor'', VFun ''function Object() { [native code] }''),
      (''__defineGetter__'', VFun ''function __defineGetter__() { [native code] }''),
      (''__defineSetter__'', VFun ''function __defineSetter__() { [native code] }''),
      (''hasOwnProperty'', VFun ''function hasOwnProperty() { [native code] }''),
      (''__lookupGetter__'', VFun ''function __lookupGetter__() { [native code] }''),
      (''__lookupSetter__'', VFun ''function __lookupSetter__() { [native code] }''),
      (''isPrototypeOf'', VFun ''function isPrototypeOf() { [native code] }''),
      (''propertyIsEnumerable'', VFun ''function propertyIsEnumerable() { [native code] }''),
      (''toString'', VFun ''function toString() { [native code] }''),
      (''valueOf'', VFun ''function valueOf() { [native code] }''),
      (''__proto__'', VObj 0 ''[object Object]''),
      (''toLocaleString'', VFun ''function toLocaleString() { [native code] }'')]"

definition inherited :: "string \<Rightarrow> bool" where
  "inherited k = (k \<in> set (map fst object_prototype))"

text \<open>\<^verbatim>\<open>results[k]\<close> as an expression.\<close>

definition prop_get :: "memo_table \<Rightarrow> string \<Rightarrow> jsval" where
  "prop_get results k =
     (case results k of
        Some v \<Rightarrow> v
      | None \<Rightarrow> (case map_of object_prototype k of Some v \<Rightarrow> v | None \<Rightarrow> VUndefined))"

text \<open>
  \<^verbatim>\<open>results[k] = v\<close>. The write creates or overwrites an own property. (For the key
  \<^verbatim>\<open>__proto__\<close> JavaScript would run the inherited setter instead; the wrapper never
  writes under an inherited name, which is lemma \<open>memoize_own_not_inherited\<close> below.)
\<close>

definition prop_set :: "memo_table \<Rightarrow> string \<Rightarrow> jsval \<Rightarrow> memo_table" where
  "prop_set results k v = results(k \<mapsto> v)"

definition memoize_init :: memo_table where
  "memoize_init = Map.empty"

definition memoize_call ::
  "'w jsfun \<Rightarrow> jsval \<Rightarrow> jsval list \<Rightarrow> memo_table \<times> 'w env \<Rightarrow> (jsval + jsval) \<times> memo_table \<times> 'w env" where
  "memoize_call func this args st =
     (case st of (results, e) \<Rightarrow>
        if \<not> truthy (prop_get results (ToPropertyKey (arg0 args))) then
          (case invoke func this args e of
             (Inl x, e') \<Rightarrow> (Inl x, results, e')
           | (Inr v, e') \<Rightarrow>
               (let results' = prop_set results (ToPropertyKey (arg0 args)) v
                in (Inr (prop_get results' (ToPropertyKey (arg0 args))), results', e')))
        else (Inr (prop_get results (ToPropertyKey (arg0 args))), results, e))"

fun memoize_run ::
  "'w jsfun \<Rightarrow> (jsval \<times> jsval list) list \<Rightarrow> memo_table \<times> 'w env \<Rightarrow> (jsval + jsval) list \<times> memo_table \<times> 'w env" where
  "memoize_run func [] st = ([], st)"
| "memoize_run func (c # cs) st =
     (case memoize_call func (fst c) (snd c) st of
        (r, st') \<Rightarrow> (case memoize_run func cs st' of (rs, st'') \<Rightarrow> (r # rs, st'')))"

section \<open>The host: clock and timers\<close>

text \<open>
  Modelled from the spec: the timer facility of the host (\<^verbatim>\<open>Date.now\<close>, \<^verbatim>\<open>setTimeout\<close>,
  \<^verbatim>\<open>clearTimeout\<close>), which the library consumes and does not define. Its contract is the
  one of the specification's section on external interfaces: a clock in milliseconds
  that never runs backwards; \<^verbatim>\<open>setTimeout(cb, n)\<close> returns a fresh handle and registers
  \<^verbatim>\<open>cb\<close> to run once, no earlier than \<open>n\<close> milliseconds later; \<^verbatim>\<open>clearTimeout(h)\<close> removes
  the timer with handle \<open>h\<close> if it is still pending and does nothing otherwise (also for
  \<^verbatim>\<open>undefined\<close>). A callback is data of type \<open>'c\<close>: what the closure captured. The host
  runs a callback with no arguments (the library passes none to \<^verbatim>\<open>setTimeout\<close>) and with a
  receiver of its own, \<open>timer_this\<close>. It may run a due timer late, never early.
  \<open>stamps\<close> records the clock at each invocation of the wrapped function, in step with
  \<open>calls\<close>.
\<close>

record ('w, 'c) host =
  clock :: int
  pending :: "(nat \<times> int \<times> 'c) list"
  next_handle :: nat
  fenv :: "'w env"
  stamps :: "int list"

definition host_init :: "int \<Rightarrow> 'w \<Rightarrow> ('w, 'c) host" where
  "host_init t0 w0 =
     \<lparr>clock = t0, pending = [], next_handle = 1, fenv = \<lparr>world = w0, calls = []\<rparr>, stamps = []\<rparr>"

definition timer_this :: jsval where
  "timer_this = VObj 1 ''[object Window]''"

definition setTimeout :: "'c \<Rightarrow> int \<Rightarrow> ('w, 'c) host \<Rightarrow> nat \<times> ('w, 'c) host" where
  "setTimeout cb n h =
     (next_handle h,
      h\<lparr>pending := pending h @ [(next_handle h, clock h + n, cb)],
        next_handle := Suc (next_handle h)\<rparr>)"

definition clearTimeout :: "nat option \<Rightarrow> ('w, 'c) host \<Rightarrow> ('w, 'c) host" where
  "clearTimeout t h =
     (case t of
        None \<Rightarrow> h
      | Some i \<Rightarrow> h\<lparr>pending := filter (\<lambda>p. fst p \<noteq> i) (pending h)\<rparr>)"

text \<open>The timer with handle \<open>i\<close>, taken off the queue if it is pending and due.\<close>

definition take_due :: "nat \<Rightarrow> ('w, 'c) host \<Rightarrow> ('c \<times> ('w, 'c) host) option" where
  "take_due i h =
     (case find (\<lambda>p. fst p = i) (pending h) of
        None \<Rightarrow> None
      | Some p \<Rightarrow>
          if fst (snd p) \<le> clock h
          then Some (snd (snd p), h\<lparr>pending := filter (\<lambda>q. fst q \<noteq> i) (pending h)\<rparr>)
          else None)"

definition host_invoke ::
  "'w jsfun \<Rightarrow> jsval \<Rightarrow> jsval list \<Rightarrow> ('w, 'c) host \<Rightarrow> (jsval + jsval) \<times> ('w, 'c) host" where
  "host_invoke func this args h =
     (case invoke func this args (fenv h) of
        (r, e') \<Rightarrow> (r, h\<lparr>fenv := e', stamps := stamps h @ [clock h]\<rparr>))"

text \<open>What the host does between calls: time passes, or it tries to run a timer.\<close>

datatype host_event = Tick nat | Fire nat

definition tick :: "nat \<Rightarrow> ('w, 'c) host \<Rightarrow> ('w, 'c) host" where
  "tick d h = h\<lparr>clock := clock h + int d\<rparr>"

section \<open>\<^verbatim>\<open>_.each\<close> and \<^verbatim>\<open>_.map\<close>, as \<^verbatim>\<open>_.delay\<close> uses them\<close>

text \<open>
  \<^verbatim>\<open>
  _.each = (collection, iterator) => {
    if (Array.isArray(collection)) {
      for(var i = 0; i < collection.length; i++) {
        iterator(collection[i], i, collection);
      }
    } else {
      for (var key in collection) {
        iterator(collection[key], key, collection);
      }
    }
  };
  _.map = (collection, iterator) => {
    var results = [];
    _.each(collection, item => {
      results.push(iterator(item));
    })
    return results;
  };
  \<close>
  A collection is an array (it has fewer than \<open>2 ^ 32\<close> elements, so every index is a
  number of the model), or an object given by its enumerable properties in enumeration
  order. The iterator's effect (here: pushing onto \<^verbatim>\<open>results\<close>) acts on a
  state \<open>'s\<close>.
\<close>

datatype collection = Array "jsval list" | Object "(string \<times> jsval) list"

function each_array :: "nat \<Rightarrow> jsval list \<Rightarrow> (jsval \<Rightarrow> jsval \<Rightarrow> 's \<Rightarrow> 's) \<Rightarrow> 's \<Rightarrow> 's" where
  "each_array i xs iterator s =
     (if i < length xs then each_array (Suc i) xs iterator (iterator (xs ! i) (VNum (of_nat i)) s)
      else s)"
  by pat_completeness auto
termination
  by (relation "measure (\<lambda>(i, xs, iterator, s). length xs - i)") auto

declare each_array.simps [simp del]

fun each_object :: "(string \<times> jsval) list \<Rightarrow> (jsval \<Rightarrow> jsval \<Rightarrow> 's \<Rightarrow> 's) \<Rightarrow> 's \<Rightarrow> 's" where
  "each_object [] iterator s = s"
| "each_object (kv # kvs) iterator s = each_object kvs iterator (iterator (snd kv) (VStr (fst kv)) s)"

fun each :: "collection \<Rightarrow> (jsval \<Rightarrow> jsval \<Rightarrow> 's \<Rightarrow> 's) \<Rightarrow> 's \<Rightarrow> 's" where
  "each (Array xs) iterator s = each_array 0 xs iterator s"
| "each (Object kvs) iterator s = each_object kvs iterator s"

definition map' :: "collection \<Rightarrow> (jsval \<Rightarrow> jsval) \<Rightarrow> jsval list" where
  "map' coll iterator = each coll (\<lambda>item key results. results @ [iterator item]) []"

text \<open>
  The \<^verbatim>\<open>arguments\<close> object of a call is not an array (\<^verbatim>\<open>Array.isArray\<close> is false): its
  enumerable properties are the indices \<^verbatim>\<open>"0"\<close>, \<^verbatim>\<open>"1"\<close>, ... in ascending order.
\<close>

fun index_keys :: "nat \<Rightarrow> jsval list \<Rightarrow> (string \<times> jsval) list" where
  "index_keys i [] = []"
| "index_keys i (x # xs) = (show_int (int i), x) # index_keys (Suc i) xs"

definition arguments_object :: "jsval list \<Rightarrow> collection" where
  "arguments_object xs = Object (index_keys 0 xs)"

text \<open>\<^verbatim>\<open>xs.slice(n)\<close> for \<open>n \<ge> 0\<close>.\<close>

definition slice_from :: "nat \<Rightarrow> 'a list \<Rightarrow> 'a list" where
  "slice_from n xs = drop n xs"

section \<open>\<^verbatim>\<open>_.delay\<close>\<close>

text \<open>
  \<^verbatim>\<open>
  _.delay = function(func, wait) {
    var args = _.map(arguments, item => item).slice(2);
    setTimeout(function(){
      func.apply(this, args);
    }, wait);
  };
  \<close>
  A call \<^verbatim>\<open>_.delay(func, wait, a, b, ...)\<close> has \<^verbatim>\<open>arguments = [func, wait, a, b, ...]\<close>;
  \<open>fref\<close> is the function as a value in that list, and the second entry is the number
  \<open>wait\<close> as a value, reduced to the range of \<open>VNum\<close>. Both are dropped by
  \<^verbatim>\<open>slice(2)\<close>: the timer that \<open>delay\<close> registers does not depend on them (lemma
  \<open>delay_schedules\<close>). The callback captures \<^verbatim>\<open>args\<close>,
  so a pending timer of this system carries an argument list. \<^verbatim>\<open>_.delay\<close> has no
  \<^verbatim>\<open>return\<close>: the call evaluates to \<^verbatim>\<open>undefined\<close>.
\<close>

definition delay :: "jsval \<Rightarrow> int \<Rightarrow> jsval list \<Rightarrow> ('w, jsval list) host \<Rightarrow> jsval \<times> ('w, jsval list) host" where
  "delay fref wait extra h =
     (let args = slice_from 2 (map' (arguments_object (fref # VNum (word_of_int wait) # extra)) (\<lambda>item. item))
      in (VUndefined, snd (setTimeout args wait h)))"

text \<open>The callback: \<^verbatim>\<open>func.apply(this, args)\<close>; what it returns or throws reaches nobody.\<close>

definition delay_fire :: "'w jsfun \<Rightarrow> nat \<Rightarrow> ('w, jsval list) host \<Rightarrow> ('w, jsval list) host" where
  "delay_fire func i h =
     (case take_due i h of
        None \<Rightarrow> h
      | Some (args, h') \<Rightarrow> snd (host_invoke func timer_this args h'))"

fun delay_step :: "'w jsfun \<Rightarrow> host_event \<Rightarrow> ('w, jsval list) host \<Rightarrow> ('w, jsval list) host" where
  "delay_step func (Tick d) h = tick d h"
| "delay_step func (Fire i) h = delay_fire func i h"

fun delay_run :: "'w jsfun \<Rightarrow> host_event list \<Rightarrow> ('w, jsval list) host \<Rightarrow> ('w, jsval list) host" where
  "delay_run func [] h = h"
| "delay_run func (ev # evs) h = delay_run func evs (delay_step func ev h)"

text \<open>
  The one timer of a call \<^verbatim>\<open>_.delay(func, wait, ...extra)\<close>: still pending with its due
  time and arguments while \<^verbatim>\<open>func\<close> has not been invoked, or gone, with \<^verbatim>\<open>func\<close>
  invoked once, on \<open>extra\<close>, at or after the due time.
\<close>

definition delay_inv :: "int \<Rightarrow> jsval list \<Rightarrow> ('w, jsval list) host \<Rightarrow> bool" where
  "delay_inv due extra h =
     (case pending h of
        [] \<Rightarrow> calls (fenv h) = [(timer_this, extra)]
                \<and> (case stamps h of [t] \<Rightarrow> due \<le> t | _ \<Rightarrow> False)
      | [p] \<Rightarrow> p = (1, due, extra) \<and> calls (fenv h) = [] \<and> stamps h = []
      | _ \<Rightarrow> False)"

section \<open>\<^verbatim>\<open>_.throttle\<close>\<close>

text \<open>
  \<^verbatim>\<open>
  _.throttle = (func, wait) => {
    var lastTrigger;
    var timer;
    var results;
    return function () {
      var now = Date.now();
      if (lastTrigger && now < lastTrigger + wait) {
        clearTimeout(timer);
        timer = setTimeout(function () {
          lastTrigger = now;
          results = func.apply(this, arguments);
        }, wait);
      } else {
        lastTrigger = now;
        results =func.apply(this, arguments);
      }
    };
  };
  \<close>
  \<^verbatim>\<open>lastTrigger\<close> is \<^verbatim>\<open>undefined\<close> (\<open>None\<close>) or a clock reading; as a condition it is
  true when it is a nonzero number. The timer callback is an ordinary \<^verbatim>\<open>function\<close>, so
  \<^verbatim>\<open>this\<close> and \<^verbatim>\<open>arguments\<close> inside it are the callback's own: the receiver the host
  supplies and the empty argument list. What the callback captures from the call that
  scheduled it is \<^verbatim>\<open>now\<close>, so a pending timer of this system carries a clock reading.
  The wrapper has no \<^verbatim>\<open>return\<close> statement.
\<close>

record throttle_state =
  lastTrigger :: "int option"
  timer :: "nat option"
  results :: jsval

definition throttle_init :: throttle_state where
  "throttle_init = \<lparr>lastTrigger = None, timer = None, results = VUndefined\<rparr>"

definition cooling :: "int option \<Rightarrow> int \<Rightarrow> int \<Rightarrow> bool" where
  "cooling lt now wait = (case lt of None \<Rightarrow> False | Some l \<Rightarrow> l \<noteq> 0 \<and> now < l + wait)"

definition throttle_call ::
  "'w jsfun \<Rightarrow> int \<Rightarrow> jsval \<Rightarrow> jsval list \<Rightarrow> throttle_state \<times> ('w, int) host
     \<Rightarrow> (jsval + jsval) \<times> throttle_state \<times> ('w, int) host" where
  "throttle_call func wait this args st =
     (case st of (s, h) \<Rightarrow>
        (let now = clock h in
         if cooling (lastTrigger s) now wait then
           (case setTimeout now wait (clearTimeout (timer s) h) of
              (i, h') \<Rightarrow> (Inr VUndefined, s\<lparr>timer := Some i\<rparr>, h'))
         else
           (let s' = s\<lparr>lastTrigger := Some now\<rparr> in
            case host_invoke func this args h of
              (Inl x, h') \<Rightarrow> (Inl x, s', h')
            | (Inr v, h') \<Rightarrow> (Inr VUndefined, s'\<lparr>results := v\<rparr>, h'))))"

text \<open>The timer callback, run by the host when the timer with handle \<open>i\<close> is due.\<close>

definition throttle_fire ::
  "'w jsfun \<Rightarrow> nat \<Rightarrow> throttle_state \<times> ('w, int) host \<Rightarrow> throttle_state \<times> ('w, int) host" where
  "throttle_fire func i st =
     (case st of (s, h) \<Rightarrow>
        (case take_due i h of
           None \<Rightarrow> (s, h)
         | Some (now, h') \<Rightarrow>
             (let s' = s\<lparr>lastTrigger := Some now\<rparr> in
              case host_invoke func timer_this [] h' of
                (Inl x, h'') \<Rightarrow> (s', h'')
              | (Inr v, h'') \<Rightarrow> (s'\<lparr>results := v\<rparr>, h''))))"

datatype event = Call jsval "jsval list" | Host host_event

fun throttle_step ::
  "'w jsfun \<Rightarrow> int \<Rightarrow> event \<Rightarrow> throttle_state \<times> ('w, int) host \<Rightarrow> throttle_state \<times> ('w, int) host" where
  "throttle_step func wait (Call this args) st = snd (throttle_call func wait this args st)"
| "throttle_step func wait (Host (Tick d)) st = (fst st, tick d (snd st))"
| "throttle_step func wait (Host (Fire i)) st = throttle_fire func i st"

fun throttle_run ::
  "'w jsfun \<Rightarrow> int \<Rightarrow> event list \<Rightarrow> throttle_state \<times> ('w, int) host \<Rightarrow> throttle_state \<times> ('w, int) host" where
  "throttle_run func wait [] st = st"
| "throttle_run func wait (ev # evs) st = throttle_run func wait evs (throttle_step func wait ev st)"

text \<open>
  The timers of one wrapper: none pending, or one, whose handle is in \<^verbatim>\<open>timer\<close>.
\<close>

definition timer_inv :: "throttle_state \<times> ('w, int) host \<Rightarrow> bool" where
  "timer_inv st =
     (case pending (snd st) of
        [] \<Rightarrow> True
      | [p] \<Rightarrow> timer (fst st) = Some (fst p)
      | _ \<Rightarrow> False)"

section \<open>Sample wrapped functions\<close>

text \<open>
  \<^verbatim>\<open>function () { var r = fresh ? 'first' : 'again'; fresh = false; return r; }\<close> for a
  variable \<^verbatim>\<open>fresh\<close> of its own.
\<close>

definition fresh_fun :: "bool jsfun" where
  "fresh_fun this args fresh = (Inr (VStr (if fresh then ''first'' else ''again'')), False)"


text \<open>
  \<^verbatim>\<open>function () { if (n < 2) { n++; g(); } return 'done'; }\<close> where \<^verbatim>\<open>g\<close> is the wrapper
  \<^verbatim>\<open>_.once\<close> has returned for this function. An exception of the inner call is not caught.
\<close>

definition reenter_fun :: "nat body" where
  "reenter_fun this args n =
     (if n < 2 then
        CallWrapper VUndefined [] (Suc n)
          (\<lambda>r n'. case r of Inl x \<Rightarrow> Done (Inl x) n' | Inr v \<Rightarrow> Done (Inr (VStr ''done'')) n')
      else Done (Inr (VStr ''done'')) n)"


text \<open>\<^verbatim>\<open>function () { return 0; }\<close>\<close>

definition zero_fun :: "unit jsfun" where
  "zero_fun this args u = (Inr (VNum 0), u)"

text \<open>\<^verbatim>\<open>function () { return 7; }\<close>\<close>

definition seven_fun :: "unit jsfun" where
  "seven_fun this args u = (Inr (VNum 7), u)"

section \<open>The range of numbers\<close>

text \<open>Every number of the model is an integer between \<open>- (2 ^ 53)\<close> and \<open>2 ^ 53 - 1\<close>.\<close>

lemma number_range: "- (2 ^ 53) \<le> sint (w :: 54 word) \<and> sint w < 2 ^ 53"
  using sint_range_size [of w] by (simp add: word_size)

section \<open>Properties of \<^verbatim>\<open>_.once\<close>\<close>

text \<open>Once \<^verbatim>\<open>alreadyCalled\<close> is set, every call returns \<^verbatim>\<open>result\<close> and changes nothing.\<close>

lemma once_run_latched:
  "alreadyCalled s \<Longrightarrow> once_run (Suc d) func cs (s, e) = (map (\<lambda>c. Inr (result s)) cs, s, e)"
  by (induction cs) simp_all

text \<open>
  When the first invocation of \<^verbatim>\<open>func\<close> returns without having called the wrapper, that is
  the only invocation: the first call and every later call return its value.
\<close>

lemma once_direct_success:
  assumes "func this args (world e) = Done (Inr v) w'"
  shows "once_run (Suc d) func ((this, args) # cs) (once_init, e)
       = (Inr v # map (\<lambda>c. Inr v) cs,
          \<lparr>alreadyCalled = True, result = v\<rparr>,
          \<lparr>world = w', calls = calls e @ [(this, args)]\<rparr>)"
proof -
  have first: "once_call (Suc d) func this args (once_init, e)
      = (Inr v, \<lparr>alreadyCalled = True, result = v\<rparr>, \<lparr>world = w', calls = calls e @ [(this, args)]\<rparr>)"
    using assms by (simp add: once_init_def)
  show ?thesis
    by (simp add: first once_run_latched del: once_call.simps)
qed

text \<open>
  C4 at the input \<^verbatim>\<open>var n = 0; var g = _.once(function () { if (n < 2) { n++; g(); }
  return 'done'; }); g(); g();\<close> with at least three frames of stack: the first call of the
  wrapper invokes the function, which calls the wrapper while \<^verbatim>\<open>alreadyCalled\<close> is still
  false, and so on: the function is invoked three times, all from the first call, where
  the claim says exactly one time. Both calls return \<^verbatim>\<open>'done'\<close>.
\<close>

theorem once_reentrant_invoked_thrice:
  "once_run (Suc (Suc (Suc d))) reenter_fun [(VUndefined, []), (VUndefined, [])]
      (once_init, \<lparr>world = 0, calls = []\<rparr>)
   = ([Inr (VStr ''done''), Inr (VStr ''done'')],
      \<lparr>alreadyCalled = True, result = VStr ''done''\<rparr>,
      \<lparr>world = 2, calls = [(VUndefined, []), (VUndefined, []), (VUndefined, [])]\<rparr>)"
  by (simp add: reenter_fun_def once_init_def)







section \<open>Properties of \<^verbatim>\<open>_.memoize\<close>\<close>


text \<open>The wrapped function is invoked exactly on the calls whose key reads as falsy.\<close>

lemma memoize_call_calls:
  "calls (snd (snd (memoize_call func this args (tbl, e))))
     = (if truthy (prop_get tbl (ToPropertyKey (arg0 args))) then calls e
        else calls e @ [(this, args)])"
  by (simp add: memoize_call_def invoke_def Let_def split: prod.splits sum.splits)





text \<open>Evaluation of the wrapper on concrete calls.\<close>

lemma key_of_one: "show_int 1 = ''1''"
  by (simp add: show_int_def digits.simps)

lemma key_of_two: "show_int 2 = ''2''"
  by (simp add: show_int_def digits.simps)

lemmas memoize_eval =
  memoize_call_def invoke_def prop_get_def prop_set_def memoize_init_def arg0_def
  object_prototype_def key_of_one key_of_two Let_def


text \<open>The table after one call.\<close>

lemma memoize_call_table:
  "fst (snd (memoize_call func this args (tbl, e)))
     = (if truthy (prop_get tbl (ToPropertyKey (arg0 args))) then tbl
        else case fst (func this args (world e)) of
               Inl x \<Rightarrow> tbl
             | Inr v \<Rightarrow> tbl(ToPropertyKey (arg0 args) \<mapsto> v))"
  by (simp add: memoize_call_def invoke_def Let_def prop_set_def split: prod.splits sum.splits)

text \<open>
  If \<^verbatim>\<open>func\<close> returns only falsy values for the key \<open>k\<close>, a falsy value stored under \<open>k\<close>
  is replaced by falsy values only, whatever calls are made.
\<close>

lemma memoize_call_falsy_stored:
  assumes falsy: "\<forall>this args w. ToPropertyKey (arg0 args) = k \<longrightarrow>
                    (\<exists>v w'. func this args w = (Inr v, w') \<and> \<not> truthy v)"
      and inv: "\<exists>v. tbl k = Some v \<and> \<not> truthy v"
  shows "\<exists>v. fst (snd (memoize_call func this args (tbl, e))) k = Some v \<and> \<not> truthy v"
proof (cases "ToPropertyKey (arg0 args) = k")
  case True
  then obtain v w' where f: "func this args (world e) = (Inr v, w')" and fv: "\<not> truthy v"
    using falsy by blast
  have "fst (snd (memoize_call func this args (tbl, e))) k = tbl k
      \<or> fst (snd (memoize_call func this args (tbl, e))) k = Some v"
    by (simp add: memoize_call_table f True)
  then show ?thesis
    using fv inv by auto
next
  case False
  have "fst (snd (memoize_call func this args (tbl, e))) k = tbl k"
    using False by (simp add: memoize_call_table split: sum.splits)
  then show ?thesis
    using inv by simp
qed

lemma memoize_run_falsy_stored:
  assumes falsy: "\<forall>this args w. ToPropertyKey (arg0 args) = k \<longrightarrow>
                    (\<exists>v w'. func this args w = (Inr v, w') \<and> \<not> truthy v)"
  shows "\<exists>v. tbl k = Some v \<and> \<not> truthy v \<Longrightarrow>
         \<exists>v. fst (snd (memoize_run func cs (tbl, e))) k = Some v \<and> \<not> truthy v"
proof (induction cs arbitrary: tbl e)
  case Nil
  then show ?case by simp
next
  case (Cons c cs)
  obtain r tbl' e' where step: "memoize_call func (fst c) (snd c) (tbl, e) = (r, tbl', e')"
    by (metis prod_cases3)
  have "\<exists>v. tbl' k = Some v \<and> \<not> truthy v"
    using memoize_call_falsy_stored [where func = func and k = k and tbl = tbl
        and this = "fst c" and args = "snd c" and e = e, OF falsy Cons.prems] step
    by simp
  then have "\<exists>v. fst (snd (memoize_run func cs (tbl', e'))) k = Some v \<and> \<not> truthy v"
    by (rule Cons.IH)
  then show ?case
    using step by (auto split: prod.splits)
qed

text \<open>A call that invokes \<^verbatim>\<open>func\<close> stores what \<^verbatim>\<open>func\<close> returns under the key of the call.\<close>

lemma memoize_call_computed:
  assumes falsy: "\<forall>this args w. ToPropertyKey (arg0 args) = k \<longrightarrow>
                    (\<exists>v w'. func this args w = (Inr v, w') \<and> \<not> truthy v)"
      and key: "ToPropertyKey (arg0 args) = k"
      and computed: "calls (snd (snd (memoize_call func this args (tbl, e)))) \<noteq> calls e"
  shows "\<exists>v. fst (snd (memoize_call func this args (tbl, e))) k = Some v \<and> \<not> truthy v"
proof -
  obtain v w' where f: "func this args (world e) = (Inr v, w')" and fv: "\<not> truthy v"
    using falsy key by blast
  have "\<not> truthy (prop_get tbl (ToPropertyKey (arg0 args)))"
    using computed by (auto simp: memoize_call_calls)
  then have "fst (snd (memoize_call func this args (tbl, e))) k = Some v"
    by (simp add: memoize_call_table f key)
  then show ?thesis
    using fv by simp
qed

text \<open>
  C6. Let \<^verbatim>\<open>func\<close> return a falsy value whenever the first argument converts to the key
  \<open>k\<close>, and let a call of the wrapper with key \<open>k\<close> have invoked \<^verbatim>\<open>func\<close>, so that a
  result for \<open>k\<close> has been computed. Then after any further calls \<open>cs\<close> of the wrapper,
  every call with key \<open>k\<close> invokes \<^verbatim>\<open>func\<close> again, with that call's \<^verbatim>\<open>this\<close> and arguments,
  and returns a falsy value: the stored result is tested for truthiness and not for
  presence.
\<close>

theorem memoize_falsy_recomputed:
  assumes falsy: "\<forall>this args w. ToPropertyKey (arg0 args) = k \<longrightarrow>
                    (\<exists>v w'. func this args w = (Inr v, w') \<and> \<not> truthy v)"
      and ckey: "ToPropertyKey (arg0 cargs) = k"
      and computed: "calls (snd (snd (memoize_call func cthis cargs st))) \<noteq> calls (snd st)"
      and between: "memoize_run func cs (snd (memoize_call func cthis cargs st)) = (rs, st')"
      and key: "ToPropertyKey (arg0 args) = k"
  shows "calls (snd (snd (memoize_call func this args st'))) = calls (snd st') @ [(this, args)]
       \<and> (\<exists>v. fst (memoize_call func this args st') = Inr v \<and> \<not> truthy v)"
proof -
  obtain tbl e where st: "st = (tbl, e)" by (cases st)
  obtain r1 tbl1 e1 where call: "memoize_call func cthis cargs (tbl, e) = (r1, tbl1, e1)"
    by (metis prod_cases3)
  obtain tbl2 e2 where st': "st' = (tbl2, e2)" by (cases st')
  have "\<exists>v. fst (snd (memoize_call func cthis cargs (tbl, e))) k = Some v \<and> \<not> truthy v"
    using falsy ckey computed st
    by (intro memoize_call_computed) simp_all
  then have stored: "\<exists>v. tbl1 k = Some v \<and> \<not> truthy v"
    by (simp add: call)
  have "\<exists>v. fst (snd (memoize_run func cs (tbl1, e1))) k = Some v \<and> \<not> truthy v"
    using falsy stored by (rule memoize_run_falsy_stored)
  then obtain u where u: "tbl2 k = Some u" and fu: "\<not> truthy u"
    using between st st' call by auto
  have miss: "\<not> truthy (prop_get tbl2 (ToPropertyKey (arg0 args)))"
    using u fu key by (simp add: prop_get_def)
  have invoked: "calls (snd (snd (memoize_call func this args (tbl2, e2)))) = calls e2 @ [(this, args)]"
    using miss by (simp add: memoize_call_calls)
  obtain v w' where f: "func this args (world e2) = (Inr v, w')" and fv: "\<not> truthy v"
    using falsy key by blast
  have "fst (memoize_call func this args (tbl2, e2)) = Inr v"
    using miss f by (simp add: memoize_call_def invoke_def Let_def prop_get_def prop_set_def)
  then show ?thesis
    using invoked fv st' by auto
qed

theorem memoize_falsy_recomputed_witness:
  "ToPropertyKey (arg0 [VNum 1]) = ''1''
   \<and> calls (snd (snd (memoize_call zero_fun VNull [VNum 1]
        (memoize_init, \<lparr>world = (), calls = []\<rparr>)))) = [(VNull, [VNum 1])]
   \<and> ToPropertyKey (arg0 [VStr ''1'']) = ''1''
   \<and> calls (snd (snd (memoize_call zero_fun VNull [VStr ''1'']
        (snd (memoize_run zero_fun [(VNull, [VNum 2])]
           (snd (memoize_call zero_fun VNull [VNum 1]
              (memoize_init, \<lparr>world = (), calls = []\<rparr>))))))))
     = [(VNull, [VNum 1]), (VNull, [VNum 2]), (VNull, [VStr ''1''])]"
proof -
  let ?st = "(memoize_init, \<lparr>world = (), calls = []\<rparr>)"
  let ?st1 = "snd (memoize_call zero_fun VNull [VNum 1] ?st)"
  let ?st2 = "snd (memoize_run zero_fun [(VNull, [VNum 2])] ?st1)"
  have f: "\<forall>this args w. ToPropertyKey (arg0 args) = ''1'' \<longrightarrow>
             (\<exists>v w'. zero_fun this args w = (Inr v, w') \<and> \<not> truthy v)"
    by (simp add: zero_fun_def)
  have k1: "ToPropertyKey (arg0 [VNum 1]) = ''1''"
    by (simp add: arg0_def key_of_one)
  have c1: "calls (snd ?st1) = [(VNull, [VNum 1])]"
    by (simp add: memoize_eval zero_fun_def)
  have computed: "calls (snd ?st1) \<noteq> calls (snd ?st)"
    using c1 by simp
  have b: "memoize_run zero_fun [(VNull, [VNum 2])] ?st1
             = (fst (memoize_run zero_fun [(VNull, [VNum 2])] ?st1), ?st2)"
    by simp
  have k: "ToPropertyKey (arg0 [VStr ''1'']) = ''1''"
    by (simp add: arg0_def)
  have before: "calls (snd ?st2) = [(VNull, [VNum 1]), (VNull, [VNum 2])]"
    by (simp add: memoize_eval zero_fun_def)
  note c = memoize_falsy_recomputed [where func = zero_fun and k = "''1''" and cargs = "[VNum 1]"
      and cthis = VNull and st = ?st and cs = "[(VNull, [VNum 2])]" and st' = ?st2
      and args = "[VStr ''1'']" and this = VNull, OF f k1 computed b k]
  have c': "calls (snd (snd (memoize_call zero_fun VNull [VStr ''1''] ?st2)))
     = [(VNull, [VNum 1]), (VNull, [VNum 2]), (VNull, [VStr ''1''])]"
    using conjunct1 [OF c] before by simp
  show ?thesis
    by (intro conjI) (rule k1, rule c1, rule k, rule c')
qed

text \<open>
  C7 at the input \<^verbatim>\<open>f = function () { return 0; }\<close>, \<^verbatim>\<open>g = _.memoize(f)\<close>, \<^verbatim>\<open>g(1); g(1)\<close>:
  both calls return \<^verbatim>\<open>0\<close>, and \<^verbatim>\<open>f\<close> is invoked twice for the one key, since the stored
  \<^verbatim>\<open>0\<close> is tested for truthiness and not for presence.
\<close>

theorem memoize_falsy_result_twice:
  "fst (memoize_run zero_fun [(VNull, [VNum 1]), (VNull, [VNum 1])]
          (memoize_init, \<lparr>world = (), calls = []\<rparr>))
     = [Inr (VNum 0), Inr (VNum 0)]
   \<and> calls (snd (snd (memoize_run zero_fun [(VNull, [VNum 1]), (VNull, [VNum 1])]
          (memoize_init, \<lparr>world = (), calls = []\<rparr>))))
     = [(VNull, [VNum 1]), (VNull, [VNum 1])]"
  by (simp add: memoize_eval zero_fun_def)

text \<open>
  A name inherited from \<^verbatim>\<open>Object.prototype\<close> reads as truthy although nothing is stored
  under it: with \<^verbatim>\<open>g = _.memoize(function () { return 0; })\<close> the calls \<^verbatim>\<open>g('toString')\<close>
  return the inherited function and never invoke the wrapped function.
\<close>

lemma memoize_inherited_key_read:
  "memoize_run zero_fun [(VNull, [VStr ''toString'']), (VNull, [VStr ''toString''])]
        (memoize_init, \<lparr>world = (), calls = []\<rparr>)
     = ([Inr (VFun ''function toString() { [native code] }''),
         Inr (VFun ''function toString() { [native code] }'')],
        memoize_init, \<lparr>world = (), calls = []\<rparr>)"
  by (simp add: memoize_eval zero_fun_def)

text \<open>
  The wrapper never writes under a name inherited from \<^verbatim>\<open>Object.prototype\<close>: such a key
  reads as truthy from the start, so the guarded assignment is not reached for it.
\<close>

lemma inherited_truthy:
  "inherited k \<Longrightarrow> tbl k = None \<Longrightarrow> truthy (prop_get tbl k)"
  by (auto simp: inherited_def object_prototype_def prop_get_def)

lemma memoize_own_not_inherited:
  assumes "inherited k"
  shows "tbl k = None \<Longrightarrow> fst (snd (memoize_run func cs (tbl, e))) k = None"
proof (induction cs arbitrary: tbl e)
  case Nil
  then show ?case by simp
next
  case (Cons c cs)
  obtain r tbl' e' where step: "memoize_call func (fst c) (snd c) (tbl, e) = (r, tbl', e')"
    by (metis prod_cases3)
  have "fst (snd (memoize_call func (fst c) (snd c) (tbl, e))) k = None"
    using inherited_truthy [where k = k and tbl = tbl, OF assms Cons.prems] Cons.prems
    by (cases "ToPropertyKey (arg0 (snd c)) = k") (auto simp: memoize_call_table split: sum.splits)
  then have "tbl' k = None"
    by (simp add: step)
  then have "fst (snd (memoize_run func cs (tbl', e'))) k = None"
    by (rule Cons.IH)
  then show ?case
    using step by (auto split: prod.splits)
qed

section \<open>Properties of \<^verbatim>\<open>_.delay\<close>\<close>

text \<open>\<^verbatim>\<open>_.map(arguments, item => item)\<close> is the array of the actual arguments, in order.\<close>

lemma each_object_push:
  "each_object (index_keys i xs) (\<lambda>item key acc. acc @ [f item]) acc0 = acc0 @ map f xs"
  by (induction xs arbitrary: i acc0) simp_all

lemma map'_arguments: "map' (arguments_object xs) f = map f xs"
  by (simp add: map'_def arguments_object_def each_object_push)

lemma delay_schedules:
  "delay fref wait extra h = (VUndefined, snd (setTimeout extra wait h))"
  by (simp add: delay_def map'_arguments slice_from_def)

text \<open>The invariant of the one timer, from the call of \<^verbatim>\<open>_.delay\<close> on.\<close>

lemma delay_inv_start:
  "delay_inv (start + wait) extra (snd (delay fref wait extra (host_init start w)))"
  by (simp add: delay_schedules setTimeout_def host_init_def delay_inv_def)

lemma delay_inv_fire:
  "delay_inv due extra h \<Longrightarrow> delay_inv due extra (delay_fire func i h)"
  by (auto simp: delay_inv_def delay_fire_def take_due_def host_invoke_def invoke_def
      split: list.splits prod.splits option.splits if_splits)

lemma delay_inv_step:
  "delay_inv due extra h \<Longrightarrow> delay_inv due extra (delay_step func ev h)"
  by (cases ev) (auto simp: delay_inv_fire, auto simp: delay_inv_def tick_def split: list.splits)

lemma delay_inv_run:
  "delay_inv due extra h \<Longrightarrow> delay_inv due extra (delay_run func evs h)"
  by (induction evs arbitrary: h) (simp_all add: delay_inv_step)

lemma delay_inv_calls:
  "delay_inv due extra h \<Longrightarrow>
   set (calls (fenv h)) \<subseteq> {(timer_this, extra)} \<and> length (calls (fenv h)) \<le> 1
   \<and> (\<forall>t\<in>set (stamps h). due \<le> t)"
  by (auto simp: delay_inv_def split: list.splits)

lemma delay_inv_due_fire:
  "delay_inv due extra h \<Longrightarrow> due \<le> clock h \<Longrightarrow> calls (fenv h) = [] \<Longrightarrow>
   calls (fenv (delay_fire func 1 h)) = [(timer_this, extra)] \<and> stamps (delay_fire func 1 h) = [clock h]"
  by (auto simp: delay_inv_def delay_fire_def take_due_def host_invoke_def invoke_def
      split: list.splits prod.splits option.splits if_splits)

text \<open>
  C8. A call \<^verbatim>\<open>_.delay(func, wait, ...extra)\<close> returns \<^verbatim>\<open>undefined\<close> at once, without
  invoking \<^verbatim>\<open>func\<close> (its world, the log of invocations and their time stamps are as
  before the call); what it does is register one timer, due \<open>wait\<close> milliseconds after
  the call and carrying exactly \<open>extra\<close>, the arguments after \<^verbatim>\<open>wait\<close>, in order. Whatever
  the host does afterwards (time passing, attempts to run timers), \<^verbatim>\<open>func\<close> is invoked at
  most once, only with the argument list \<open>extra\<close>, and never before \<open>wait\<close> milliseconds
  have passed since the call; and once that time has passed and the timer has not run yet,
  running it invokes \<^verbatim>\<open>func\<close> on \<open>extra\<close>.
\<close>

theorem delay_deferred:
  "fst (delay fref wait extra h) = VUndefined
   \<and> fenv (snd (delay fref wait extra h)) = fenv h
   \<and> stamps (snd (delay fref wait extra h)) = stamps h
   \<and> pending (snd (delay fref wait extra h)) = pending h @ [(next_handle h, clock h + wait, extra)]
   \<and> set (calls (fenv (delay_run func evs (snd (delay fref wait extra (host_init start w))))))
        \<subseteq> {(timer_this, extra)}
   \<and> length (calls (fenv (delay_run func evs (snd (delay fref wait extra (host_init start w)))))) \<le> 1
   \<and> (\<forall>t\<in>set (stamps (delay_run func evs (snd (delay fref wait extra (host_init start w))))).
         start + wait \<le> t)
   \<and> (start + wait \<le> clock (delay_run func evs (snd (delay fref wait extra (host_init start w))))
        \<and> calls (fenv (delay_run func evs (snd (delay fref wait extra (host_init start w))))) = []
       \<longrightarrow> calls (fenv (delay_fire func 1
                (delay_run func evs (snd (delay fref wait extra (host_init start w))))))
             = [(timer_this, extra)]
           \<and> stamps (delay_fire func 1
                (delay_run func evs (snd (delay fref wait extra (host_init start w)))))
             = [clock (delay_run func evs (snd (delay fref wait extra (host_init start w))))])"
proof -
  let ?h = "delay_run func evs (snd (delay fref wait extra (host_init start w)))"
  have sync: "fst (delay fref wait extra h) = VUndefined
      \<and> fenv (snd (delay fref wait extra h)) = fenv h
      \<and> stamps (snd (delay fref wait extra h)) = stamps h
      \<and> pending (snd (delay fref wait extra h)) = pending h @ [(next_handle h, clock h + wait, extra)]"
    by (simp add: delay_schedules setTimeout_def)
  have inv: "delay_inv (start + wait) extra ?h"
    using delay_inv_start by (rule delay_inv_run)
  have safe: "set (calls (fenv ?h)) \<subseteq> {(timer_this, extra)} \<and> length (calls (fenv ?h)) \<le> 1
      \<and> (\<forall>t\<in>set (stamps ?h). start + wait \<le> t)"
    using inv by (rule delay_inv_calls)
  have live: "start + wait \<le> clock ?h \<and> calls (fenv ?h) = []
      \<longrightarrow> calls (fenv (delay_fire func 1 ?h)) = [(timer_this, extra)]
          \<and> stamps (delay_fire func 1 ?h) = [clock ?h]"
    using delay_inv_due_fire [OF inv] by blast
  show ?thesis
    using sync safe live by blast
qed

lemmas delay_eval =
  delay_schedules delay_fire_def setTimeout_def take_due_def host_invoke_def invoke_def
  tick_def host_init_def fresh_fun_def

theorem delay_deferred_witness:
  "1100 \<in> set (stamps (delay_run fresh_fun [Tick 99, Fire 1, Tick 1, Fire 1]
        (snd (delay (VFun ''function f() {}'') 100 [VStr ''a'', VStr ''b''] (host_init 1000 True)))))
   \<and> (1000::int) + 100 \<le> 1100
   \<and> 1000 + 100 \<le> clock (delay_run fresh_fun [Tick 99, Fire 1, Tick 1]
        (snd (delay (VFun ''function f() {}'') 100 [VStr ''a'', VStr ''b''] (host_init 1000 True))))
   \<and> calls (fenv (delay_run fresh_fun [Tick 99, Fire 1, Tick 1]
        (snd (delay (VFun ''function f() {}'') 100 [VStr ''a'', VStr ''b''] (host_init 1000 True))))) = []
   \<and> calls (fenv (delay_fire fresh_fun 1 (delay_run fresh_fun [Tick 99, Fire 1, Tick 1]
        (snd (delay (VFun ''function f() {}'') 100 [VStr ''a'', VStr ''b''] (host_init 1000 True))))))
       = [(timer_this, [VStr ''a'', VStr ''b''])]
   \<and> stamps (delay_fire fresh_fun 1 (delay_run fresh_fun [Tick 99, Fire 1, Tick 1]
        (snd (delay (VFun ''function f() {}'') 100 [VStr ''a'', VStr ''b''] (host_init 1000 True)))))
       = [1100]"
proof -
  let ?h1 = "snd (delay (VFun ''function f() {}'') 100 [VStr ''a'', VStr ''b''] (host_init 1000 True))"
  let ?hN = "delay_run fresh_fun [Tick 99, Fire 1, Tick 1] ?h1"
  let ?hM = "delay_run fresh_fun [Tick 99, Fire 1, Tick 1, Fire 1] ?h1"
  have m: "1100 \<in> set (stamps ?hM)"
    by (simp add: delay_eval)
  have ck: "clock ?hN = 1100"
    by (simp add: delay_eval)
  have due: "1000 + 100 \<le> clock ?hN"
    using ck by simp
  have none: "calls (fenv ?hN) = []"
    by (simp add: delay_eval)
  note bound = delay_deferred [where func = fresh_fun and evs = "[Tick 99, Fire 1, Tick 1, Fire 1]"
      and fref = "VFun ''function f() {}''" and wait = 100 and extra = "[VStr ''a'', VStr ''b'']"
      and start = 1000 and w = True and h = "host_init 1000 True"]
  have le: "(1000::int) + 100 \<le> 1100"
    using bound m by blast
  note fire = delay_deferred [where func = fresh_fun and evs = "[Tick 99, Fire 1, Tick 1]"
      and fref = "VFun ''function f() {}''" and wait = 100 and extra = "[VStr ''a'', VStr ''b'']"
      and start = 1000 and w = True and h = "host_init 1000 True"]
  have fired: "calls (fenv (delay_fire fresh_fun 1 ?hN)) = [(timer_this, [VStr ''a'', VStr ''b''])]
       \<and> stamps (delay_fire fresh_fun 1 ?hN) = [clock ?hN]"
    using fire due none by blast
  have t: "stamps (delay_fire fresh_fun 1 ?hN) = [1100]"
    using fired ck by simp
  show ?thesis
    by (intro conjI) (rule m, rule le, rule due, rule none, rule conjunct1 [OF fired], rule t)
qed

section \<open>Properties of \<^verbatim>\<open>_.throttle\<close>\<close>

text \<open>Every transition of the wrapper and of the host keeps \<open>timer_inv\<close>.\<close>

lemma timer_inv_call:
  "timer_inv st \<Longrightarrow> timer_inv (snd (throttle_call func wait this args st))"
  by (cases st)
    (auto simp: timer_inv_def throttle_call_def setTimeout_def clearTimeout_def host_invoke_def
      Let_def split: list.splits prod.splits sum.splits option.splits)

lemma timer_inv_fire:
  "timer_inv st \<Longrightarrow> timer_inv (throttle_fire func i st)"
  by (cases st)
    (auto simp: timer_inv_def throttle_fire_def take_due_def host_invoke_def
      Let_def split: list.splits prod.splits sum.splits option.splits if_splits)

lemma timer_inv_step:
  assumes "timer_inv st"
  shows "timer_inv (throttle_step func wait ev st)"
proof (cases ev)
  case (Call this args)
  then show ?thesis
    using assms by (simp add: timer_inv_call)
next
  case (Host hev)
  show ?thesis
  proof (cases hev)
    case (Tick d)
    then show ?thesis
      using assms Host by (auto simp: timer_inv_def tick_def split: list.splits)
  next
    case (Fire i)
    then show ?thesis
      using assms Host by (simp add: timer_inv_fire)
  qed
qed

lemma timer_inv_run:
  "timer_inv st \<Longrightarrow> timer_inv (throttle_run func wait evs st)"
  by (induction evs arbitrary: st) (simp_all add: timer_inv_step)

lemma timer_inv_init: "timer_inv (throttle_init, host_init start w)"
  by (simp add: timer_inv_def host_init_def)

lemma timer_inv_length: "timer_inv st \<Longrightarrow> length (pending (snd st)) \<le> 1"
  by (simp add: timer_inv_def split: list.splits)

lemma throttle_call_pending:
  "timer_inv st \<Longrightarrow>
   pending (snd (snd (throttle_call func wait this args st)))
     = (if cooling (lastTrigger (fst st)) (clock (snd st)) wait
        then [(next_handle (snd st), clock (snd st) + wait, clock (snd st))]
        else pending (snd st))"
  by (cases st)
    (auto simp: timer_inv_def throttle_call_def setTimeout_def clearTimeout_def host_invoke_def
      invoke_def Let_def split: list.splits prod.splits sum.splits option.splits)

lemma throttle_fire_pending:
  "set (pending (snd (throttle_fire func i st))) \<subseteq> set (pending (snd st))"
  by (cases st)
    (auto simp: throttle_fire_def take_due_def host_invoke_def invoke_def
      Let_def split: prod.splits sum.splits option.splits if_splits)

text \<open>
  C9. In every state a wrapper can reach from its creation, through calls, the passing of
  time and attempts of the host to run timers, at most one of its timers is pending. A call
  inside the cooldown window leaves exactly the timer it has just set (the one pending
  before is cancelled first); a call outside the window and the passing of time leave the
  pending timers as they are, and the host running a timer creates none.
\<close>

theorem throttle_one_pending_timer:
  "length (pending (snd (throttle_run func wait evs (throttle_init, host_init start w)))) \<le> 1
   \<and> pending (snd (throttle_step func wait (Call this args)
          (throttle_run func wait evs (throttle_init, host_init start w))))
       = (if cooling (lastTrigger (fst (throttle_run func wait evs (throttle_init, host_init start w))))
               (clock (snd (throttle_run func wait evs (throttle_init, host_init start w)))) wait
          then [(next_handle (snd (throttle_run func wait evs (throttle_init, host_init start w))),
                 clock (snd (throttle_run func wait evs (throttle_init, host_init start w))) + wait,
                 clock (snd (throttle_run func wait evs (throttle_init, host_init start w))))]
          else pending (snd (throttle_run func wait evs (throttle_init, host_init start w))))
   \<and> pending (snd (throttle_step func wait (Host (Tick d))
          (throttle_run func wait evs (throttle_init, host_init start w))))
       = pending (snd (throttle_run func wait evs (throttle_init, host_init start w)))
   \<and> set (pending (snd (throttle_step func wait (Host (Fire i))
          (throttle_run func wait evs (throttle_init, host_init start w)))))
       \<subseteq> set (pending (snd (throttle_run func wait evs (throttle_init, host_init start w))))"
proof -
  let ?st = "throttle_run func wait evs (throttle_init, host_init start w)"
  have inv: "timer_inv ?st"
    using timer_inv_init by (rule timer_inv_run)
  have a: "length (pending (snd ?st)) \<le> 1"
    using inv by (rule timer_inv_length)
  have b: "pending (snd (throttle_step func wait (Call this args) ?st))
       = (if cooling (lastTrigger (fst ?st)) (clock (snd ?st)) wait
          then [(next_handle (snd ?st), clock (snd ?st) + wait, clock (snd ?st))]
          else pending (snd ?st))"
    using throttle_call_pending [OF inv] by simp
  have c: "pending (snd (throttle_step func wait (Host (Tick d)) ?st)) = pending (snd ?st)"
    by (simp add: tick_def)
  have d: "set (pending (snd (throttle_step func wait (Host (Fire i)) ?st))) \<subseteq> set (pending (snd ?st))"
    using throttle_fire_pending by simp
  show ?thesis
    using a b c d by blast
qed

text \<open>Evaluation of the wrapper on concrete runs.\<close>

lemmas throttle_eval =
  throttle_call_def throttle_fire_def setTimeout_def clearTimeout_def take_due_def
  host_invoke_def invoke_def tick_def cooling_def throttle_init_def host_init_def Let_def

text \<open>
  C1 at the input \<^verbatim>\<open>g = _.throttle(f, 100)\<close>; \<^verbatim>\<open>g()\<close> at time 1000, \<^verbatim>\<open>g()\<close> at 1050,
  the timer of the second call running when due at 1150, \<^verbatim>\<open>g()\<close> at 1151. \<^verbatim>\<open>f\<close> is executed
  at 1000, at 1150 (trailing) and at 1151 (immediate): the callback sets \<^verbatim>\<open>lastTrigger\<close> to
  1050, the \<^verbatim>\<open>now\<close> of the call that scheduled it, so the call at 1151 finds the window
  expired. Two executions are 1 millisecond apart.
\<close>

theorem throttle_two_executions_one_ms_apart:
  "stamps (snd (throttle_run seven_fun 100
      [Call VNull [], Host (Tick 50), Call VNull [], Host (Tick 100), Host (Fire 1),
       Host (Tick 1), Call VNull []]
      (throttle_init, host_init 1000 ()))) = [1000, 1150, 1151]"
  by (simp add: throttle_eval seven_fun_def)

text \<open>
  The path that executes at once does not cancel a pending timer either: \<^verbatim>\<open>g()\<close> at 1000,
  at 1099 and at 1100, the timer of the second call running when due at 1199, executes
  \<^verbatim>\<open>f\<close> at 1100 and at 1199.
\<close>

lemma throttle_timer_survives_immediate_call:
  "stamps (snd (throttle_run seven_fun 100
      [Call VNull [], Host (Tick 99), Call VNull [], Host (Tick 1), Call VNull [],
       Host (Tick 99), Host (Fire 1)]
      (throttle_init, host_init 1000 ()))) = [1000, 1100, 1199]"
  by (simp add: throttle_eval seven_fun_def)

text \<open>
  C2 at the input \<^verbatim>\<open>g = _.throttle(f, 100)\<close>; \<^verbatim>\<open>g('a')\<close> at time 1000, \<^verbatim>\<open>g('b')\<close> at 1010,
  the timer running when due at 1110. The trailing execution invokes \<^verbatim>\<open>f\<close> with the empty
  argument list and the host's receiver, not with \<^verbatim>\<open>'b'\<close>: \<^verbatim>\<open>arguments\<close> and \<^verbatim>\<open>this\<close> in the
  callback are the callback's own.
\<close>

theorem throttle_trailing_arguments_empty:
  "calls (fenv (snd (throttle_run seven_fun 100
      [Call VNull [VStr ''a''], Host (Tick 10), Call VNull [VStr ''b''], Host (Tick 100),
       Host (Fire 1)]
      (throttle_init, host_init 1000 ())))) = [(VNull, [VStr ''a'']), (timer_this, [])]"
  by (simp add: throttle_eval seven_fun_def)

text \<open>
  C3 at the input \<^verbatim>\<open>f = function () { return 7; }\<close>, \<^verbatim>\<open>g = _.throttle(f, 100)\<close>, first call
  \<^verbatim>\<open>g()\<close>: the call takes the immediate path, \<^verbatim>\<open>f\<close> is invoked and its value \<^verbatim>\<open>7\<close> is stored
  in \<^verbatim>\<open>results\<close>, and the wrapper returns \<^verbatim>\<open>undefined\<close>.
\<close>

theorem throttle_returns_undefined:
  "throttle_call seven_fun 100 VNull [] (throttle_init, host_init 1000 ())
     = (Inr VUndefined,
        \<lparr>lastTrigger = Some 1000, timer = None, results = VNum 7\<rparr>,
        \<lparr>clock = 1000, pending = [], next_handle = 1,
         fenv = \<lparr>world = (), calls = [(VNull, [])]\<rparr>, stamps = [1000]\<rparr>)"
  by (simp add: throttle_eval seven_fun_def)

text \<open>On no path does the wrapper return anything but \<^verbatim>\<open>undefined\<close>.\<close>

lemma throttle_call_never_returns_value:
  "fst (throttle_call func wait this args st) = Inr v \<Longrightarrow> v = VUndefined"
  by (cases st)
    (auto simp: throttle_call_def setTimeout_def host_invoke_def invoke_def Let_def
      split: prod.splits sum.splits if_splits)

end
